theory Spec2Isabelle
  imports Complex_Main "HOL-Library.Sublist" "HOL-Library.Multiset"
    "HOL-Library.Char_ord" "HOL-Library.List_Lexorder"
begin

section \<open>The data-synchronisation hooks for pledges and payments\<close>

text \<open>
  The module under study defines the query keys of the pledge and payment families, the
  three transport functions \<open>createPayment\<close>, \<open>fetchPledges\<close> and \<open>createPledge\<close>, and the
  hooks that register them with the query cache. The cache itself (\<open>useQuery\<close>,
  \<open>useMutation\<close>, \<open>invalidateQueries\<close>) is a collaborator of the module and is not part of
  its source; where a property depends on it, it is modelled from the design document and
  the definition says so.
\<close>

subsection \<open>Parameter bags and query keys\<close>

text \<open>
  A \<open>PledgeQueryParams\<close> object is handled dynamically by the module (\<open>Object.entries\<close>,
  embedding into a key), so it is an association list in insertion order. Its fields are
  numbers, strings or \<open>undefined\<close>; \<open>null\<close> is included because \<open>fetchPledges\<close> tests for it.
  Identifiers, page numbers and limits are integers.
\<close>

datatype js_value = Undefined | Null | Num int | Str string

type_synonym PledgeQueryParams = "(string \<times> js_value) list"

text \<open>An element of a query key array: a string literal, a number, or a parameter bag.\<close>

datatype key_part = KStr string | KNum int | KParams PledgeQueryParams

type_synonym query_key = "key_part list"

definition pledgeKeys_all :: query_key where
  "pledgeKeys_all = [KStr ''pledges'']"

definition pledgeKeys_lists :: query_key where
  "pledgeKeys_lists = pledgeKeys_all @ [KStr ''list'']"

definition pledgeKeys_list :: "PledgeQueryParams \<Rightarrow> query_key" where
  "pledgeKeys_list params = pledgeKeys_lists @ [KParams params]"

definition pledgeKeys_details :: query_key where
  "pledgeKeys_details = pledgeKeys_all @ [KStr ''detail'']"

definition pledgeKeys_detail :: "int \<Rightarrow> query_key" where
  "pledgeKeys_detail ident = pledgeKeys_details @ [KNum ident]"

definition paymentKeys_all :: query_key where
  "paymentKeys_all = [KStr ''payments'']"

definition paymentKeys_lists :: query_key where
  "paymentKeys_lists = paymentKeys_all @ [KStr ''list'']"

definition paymentKeys_byPledge :: "int \<Rightarrow> query_key" where
  "paymentKeys_byPledge pledgeId = paymentKeys_lists @ [KStr ''pledge'', KNum pledgeId]"

definition paymentKeys_byContact :: "int \<Rightarrow> query_key" where
  "paymentKeys_byContact contactId = paymentKeys_lists @ [KStr ''contact'', KNum contactId]"

subsection \<open>Key identity and prefix matching\<close>

text \<open>
  Modelled from the spec: the identity under which the cache looks a key up is not in the
  module's source. The design document asks for value equality of keys, realised by a
  canonical serialisation with a fixed field order; \<open>hashKey\<close> puts every parameter bag of
  a key into field-name order, and two keys are the same cache identity when their
  canonical forms coincide.
\<close>

fun canonical_part :: "key_part \<Rightarrow> key_part" where
  "canonical_part (KParams bag) = KParams (sort_key fst bag)"
| "canonical_part (KStr s) = KStr s"
| "canonical_part (KNum n) = KNum n"

definition hashKey :: "query_key \<Rightarrow> query_key" where
  "hashKey k = map canonical_part k"

definition key_eq :: "query_key \<Rightarrow> query_key \<Rightarrow> bool" where
  "key_eq a b = (hashKey a = hashKey b)"

text \<open>
  Modelled from the spec: \<open>isPrefixOf a b\<close> holds when \<open>b\<close>'s family and parameter bag
  extend \<open>a\<close>'s. A literal element must be matched by the same literal; a parameter bag is
  matched by a bag that holds each of its fields with the same value.
\<close>

fun part_extends :: "key_part \<Rightarrow> key_part \<Rightarrow> bool" where
  "part_extends (KParams f) (KParams b) = list_all (\<lambda>kv. kv \<in> set b) f"
| "part_extends (KStr s) y = (y = KStr s)"
| "part_extends (KNum n) y = (y = KNum n)"
| "part_extends (KParams f) y = False"

fun isPrefixOf :: "query_key \<Rightarrow> query_key \<Rightarrow> bool" where
  "isPrefixOf [] b = True"
| "isPrefixOf (x # xs) [] = False"
| "isPrefixOf (x # xs) (y # ys) = (part_extends x y \<and> isPrefixOf xs ys)"

subsection \<open>The transport functions\<close>

text \<open>
  The HTTP transport is outside the module: \<open>fetch\<close> is a parameter that maps a request to
  the response the server gives. A response carries the \<open>ok\<close> flag, the status text and
  its parsed body; \<open>json_error\<close> is the \<open>error\<close> property of that body (absent when the body
  has none) and \<open>json\<close> the body read at the declared response type. A thrown \<open>Error\<close> is the
  \<open>Inl\<close> result. The \<open>method\<close> of a request is written \<open>httpMethod\<close>, and the field
  \<open>notes\<close> of the two inputs \<open>notes'\<close>: the plain names are reserved words.
\<close>

datatype error = Error string | TypeError string

record 'b request =
  url :: string
  httpMethod :: string
  headers :: "(string \<times> string) list"
  body :: "'b option"

record 'a response =
  ok :: bool
  statusText :: string
  json_error :: "string option"
  json :: 'a

datatype payment_status =
  PaymentPending | PaymentCompleted | PaymentFailed | PaymentCancelled | PaymentRefunded
  | PaymentProcessing

record CreatePaymentData =
  pledgeId :: int
  amount :: real
  currency :: string
  amountUsd :: "real option"
  paymentDate :: string
  receivedDate :: "string option"
  paymentMethod :: "string option"
  paymentStatus :: "payment_status option"
  referenceNumber :: "string option"
  checkNumber :: "string option"
  receiptNumber :: "string option"
  receiptIssued :: "bool option"
  notes' :: "string option"
  paymentPlanId :: "int option"

record CreatePledgeData =
  contactId :: int
  categoryId :: "int option"
  pledgeDate :: string
  description :: string
  originalAmount :: real
  currency :: string
  originalAmountUsd :: real
  notes' :: "string option"

record CreatePledgeAndPayData = CreatePledgeData +
  shouldRedirectToPay :: bool

text \<open>
  The \<open>Pledge\<close> row inside a \<open>CreatePledgeResponse\<close> is never inspected by the module and is a type
  parameter; the object \<open>{...result, shouldRedirectToPay}\<close> is the response extended by
  the one field.
\<close>

record 'p CreatePledgeResponse =
  message :: string
  pledge :: 'p

record 'p CreatePledgeAndPayResponse = "'p CreatePledgeResponse" +
  shouldRedirectToPay :: bool

text \<open>The value of \<open>a || b\<close> on an optional string: \<open>undefined\<close> and the empty string are falsy.\<close>

definition or_else :: "string option \<Rightarrow> string \<Rightarrow> string" where
  "or_else a b = (case a of None \<Rightarrow> b | Some s \<Rightarrow> if s = [] then b else s)"

definition createPayment ::
  "(CreatePaymentData request \<Rightarrow> 'r response) \<Rightarrow> CreatePaymentData \<Rightarrow> error + 'r" where
  "createPayment fetch data =
    (let response = fetch \<lparr>url = ''/api/payments'', httpMethod = ''POST'',
                           headers = [(''Content-Type'', ''application/json'')],
                           body = Some data\<rparr>
     in if \<not> ok response
        then Inl (Error (or_else (json_error response)
                           (''Failed to create payment: '' @ statusText response)))
        else Inr (json response))"

text \<open>Decimal rendering of an integer, as \<open>Number.prototype.toString\<close> gives it.\<close>

fun digits :: "nat \<Rightarrow> string" where
  "digits n =
    (if n < 10 then [''0123456789'' ! n]
     else digits (n div 10) @ [''0123456789'' ! (n mod 10)])"

declare digits.simps [simp del]

definition Number_toString :: "int \<Rightarrow> string" where
  "Number_toString n = (if n < 0 then ''-'' @ digits (nat (- n)) else digits (nat n))"

text \<open>\<open>value.toString()\<close>: a method call on \<open>undefined\<close> or \<open>null\<close> throws a \<open>TypeError\<close>.\<close>

fun toString :: "js_value \<Rightarrow> error + string" where
  "toString Undefined = Inl (TypeError ''Cannot read properties of undefined'')"
| "toString Null = Inl (TypeError ''Cannot read properties of null'')"
| "toString (Num n) = Inr (Number_toString n)"
| "toString (Str s) = Inr s"

text \<open>
  The \<open>forEach\<close> over \<open>Object.entries(params)\<close>: the entries are visited in insertion order
  and \<open>searchParams\<close> is the list of pairs appended so far.
\<close>

fun appendEntries ::
  "(string \<times> js_value) list \<Rightarrow> (string \<times> string) list \<Rightarrow> error + (string \<times> string) list" where
  "appendEntries [] searchParams = Inr searchParams"
| "appendEntries ((k, v) # rest) searchParams =
    (if v \<noteq> Undefined \<and> v \<noteq> Null \<and> v \<noteq> Str []
     then (case toString v of
             Inl e \<Rightarrow> Inl e
           | Inr s \<Rightarrow> appendEntries rest (searchParams @ [(k, s)]))
     else appendEntries rest searchParams)"

text \<open>
  \<open>URLSearchParams.toString()\<close> joins the pairs as \<open>name=value\<close> with \<open>&\<close>; the
  percent-encoding of names and values is the platform's and is the parameter \<open>enc\<close>.
\<close>

fun URLSearchParams_toString :: "(string \<Rightarrow> string) \<Rightarrow> (string \<times> string) list \<Rightarrow> string" where
  "URLSearchParams_toString enc [] = []"
| "URLSearchParams_toString enc [(k, v)] = enc k @ ''='' @ enc v"
| "URLSearchParams_toString enc ((k, v) # rest) =
     enc k @ ''='' @ enc v @ ''&'' @ URLSearchParams_toString enc rest"

definition fetchPledges ::
  "(string \<Rightarrow> string) \<Rightarrow> (unit request \<Rightarrow> 'a response) \<Rightarrow> PledgeQueryParams \<Rightarrow> error + 'a" where
  "fetchPledges enc fetch params =
    (case appendEntries params [] of
       Inl e \<Rightarrow> Inl e
     | Inr searchParams \<Rightarrow>
        (let response = fetch \<lparr>url = ''/api/pledges?'' @ URLSearchParams_toString enc searchParams,
                                httpMethod = ''GET'', headers = [], body = None\<rparr>
         in if \<not> ok response
            then Inl (Error (''Failed to fetch pledges: '' @ statusText response))
            else Inr (json response)))"

definition createPledge ::
  "('z CreatePledgeData_scheme request \<Rightarrow> 'r response) \<Rightarrow> 'z CreatePledgeData_scheme
     \<Rightarrow> error + 'r" where
  "createPledge fetch data =
    (let response = fetch \<lparr>url = ''/api/pledges'', httpMethod = ''POST'',
                           headers = [(''Content-Type'', ''application/json'')],
                           body = Some data\<rparr>
     in if \<not> ok response
        then Inl (Error (or_else (json_error response)
                           (''Failed to create pledge: '' @ statusText response)))
        else Inr (json response))"

text \<open>
  The mutation function of \<open>useCreatePledgeAndPayMutation\<close>: the rest pattern
  \<open>{shouldRedirectToPay, ...pledgeData}\<close> splits the input, and the spread
  \<open>{...result, shouldRedirectToPay}\<close> extends the response.
\<close>

definition createPledgeAndPay ::
  "(CreatePledgeData request \<Rightarrow> 'p CreatePledgeResponse response) \<Rightarrow> CreatePledgeAndPayData
     \<Rightarrow> error + 'p CreatePledgeAndPayResponse" where
  "createPledgeAndPay fetch data =
    (let redirect = CreatePledgeAndPayData.shouldRedirectToPay data;
         pledgeData = CreatePledgeData.truncate data
     in case createPledge fetch pledgeData of
          Inl err \<Rightarrow> Inl err
        | Inr result \<Rightarrow> Inr (CreatePledgeResponse.extend result
                               (CreatePledgeAndPayResponse.fields redirect)))"

subsection \<open>The query cache\<close>

text \<open>
  Modelled from the spec: the cache behind \<open>useQuery\<close>, \<open>useMutation\<close> and
  \<open>invalidateQueries\<close> is not in the module's source. The definitions of this subsection
  follow the design document: the Cache Entry of its data model, the Fetch Coordinator's
  \<open>request\<close> and the completion of a fetch, the Subscription Manager's counters, and the
  Invalidation Engine. Times are milliseconds. Timed eviction of unused entries is not
  part of the model.

  An entry also records the callers attached to its in-flight fetch (\<open>waiters\<close>). The cache
  logs every invocation of a fetcher (\<open>fetchLog\<close>), every completion it applies
  (\<open>settleLog\<close>) and every prefix handed to \<open>invalidateQueries\<close> (\<open>invalidations\<close>).
\<close>

text \<open>
  Modelled from the spec: the Cache Entry of the design document's data model, which the
  module's source does not hold, with its status, data, error, timestamps and subscriber
  count, and the cache as the list of its entries with the three logs.
\<close>

datatype status = status_pending | status_success | status_error

record 'd entry =
  key :: query_key
  status :: status
  data :: "'d option"
  error :: "error option"
  fetchedAt :: int
  staleAt :: int
  subscriberCount :: nat
  waiters :: "nat list"

record 'd cache =
  entries :: "'d entry list"
  fetchLog :: "query_key list"
  settleLog :: "query_key list"
  invalidations :: "query_key list"

definition empty_cache :: "'d cache" where
  "empty_cache = \<lparr>entries = [], fetchLog = [], settleLog = [], invalidations = []\<rparr>"

text \<open>
  Modelled from the spec: the Cache Store's \<open>get\<close> and its update of the entry of a key,
  absent from the source; an entry is found by its identity, not by the array it was
  stored under.
\<close>

definition lookup :: "query_key \<Rightarrow> 'd entry list \<Rightarrow> 'd entry option" where
  "lookup k es = find (\<lambda>x. key_eq (key x) k) es"

definition modify :: "query_key \<Rightarrow> ('d entry \<Rightarrow> 'd entry) \<Rightarrow> 'd entry list \<Rightarrow> 'd entry list" where
  "modify k f es = map (\<lambda>x. if key_eq (key x) k then f x else x) es"

text \<open>
  Modelled from the spec: what the Fetch Coordinator's \<open>request\<close>, absent from the source,
  hands back at once (the cached data, or a fetch to wait for), how a caller is attached to
  a fetch, and the entry created for a key that has none.
\<close>

datatype 'd reply = Cached "'d option" | Awaiting

definition attach :: "nat option \<Rightarrow> nat list \<Rightarrow> nat list" where
  "attach who ws = (case who of None \<Rightarrow> ws | Some w \<Rightarrow> ws @ [w])"

definition new_entry :: "query_key \<Rightarrow> nat option \<Rightarrow> 'd entry" where
  "new_entry k who =
    \<lparr>key = k, status = status_pending, data = None, error = None, fetchedAt = 0,
     staleAt = 0, subscriberCount = 0, waiters = attach who []\<rparr>"

text \<open>
  Modelled from the spec: the Fetch Coordinator's \<open>request\<close>, absent from the source. A
  pending entry takes the caller onto its fetch; a fresh success entry (\<open>now < staleAt\<close>)
  answers from the cache; otherwise the entry becomes pending and the fetcher is invoked
  once.
\<close>

definition request :: "query_key \<Rightarrow> nat option \<Rightarrow> int \<Rightarrow> 'd cache \<Rightarrow> 'd reply \<times> 'd cache" where
  "request k who now c =
    (case lookup k (entries c) of
       None \<Rightarrow>
         (Awaiting, c\<lparr>entries := entries c @ [new_entry k who], fetchLog := fetchLog c @ [k]\<rparr>)
     | Some e \<Rightarrow>
         if status e = status_pending
         then (Awaiting,
               c\<lparr>entries := modify k (\<lambda>x. x\<lparr>waiters := attach who (waiters x)\<rparr>) (entries c)\<rparr>)
         else if status e = status_success \<and> now < staleAt e
         then (Cached (data e), c)
         else (Awaiting,
               c\<lparr>entries := modify k (\<lambda>x. x\<lparr>status := status_pending, waiters := attach who []\<rparr>)
                               (entries c),
                 fetchLog := fetchLog c @ [k]\<rparr>))"

text \<open>
  Modelled from the spec: the Fetch Coordinator's transition on the completion of a fetch,
  absent from the source. Success stores the data and resets \<open>fetchedAt\<close> and \<open>staleAt\<close>;
  failure stores the error and leaves \<open>data\<close> as it was.
\<close>

definition complete :: "error + 'd \<Rightarrow> int \<Rightarrow> int \<Rightarrow> 'd entry \<Rightarrow> 'd entry" where
  "complete outcome now staleTime x =
    (case outcome of
       Inr d \<Rightarrow> x\<lparr>status := status_success, data := Some d, error := None, fetchedAt := now,
                  staleAt := now + staleTime, waiters := []\<rparr>
     | Inl err \<Rightarrow> x\<lparr>status := status_error, error := Some err, waiters := []\<rparr>)"

text \<open>
  Modelled from the spec: the delivery of a completion, absent from the source. \<open>settle\<close>
  applies the completion to the pending entry of the key and returns what each attached
  caller is handed. A completion for a key with no pending entry is dropped.
\<close>

definition settle ::
  "query_key \<Rightarrow> error + 'd \<Rightarrow> int \<Rightarrow> int \<Rightarrow> 'd cache \<Rightarrow> (nat \<times> (error + 'd)) list \<times> 'd cache" where
  "settle k outcome now staleTime c =
    (case lookup k (entries c) of
       None \<Rightarrow> ([], c)
     | Some e \<Rightarrow>
         if status e \<noteq> status_pending then ([], c)
         else (map (\<lambda>w. (w, outcome)) (waiters e),
               c\<lparr>entries := modify k (complete outcome now staleTime) (entries c),
                 settleLog := settleLog c @ [k]\<rparr>))"

text \<open>
  Modelled from the spec: the Subscription Manager's counter, absent from the source; an
  unsubscription never drives the count below 0.
\<close>

definition subscribe :: "query_key \<Rightarrow> 'd cache \<Rightarrow> 'd cache" where
  "subscribe k c =
    c\<lparr>entries := modify k (\<lambda>x. x\<lparr>subscriberCount := Suc (subscriberCount x)\<rparr>) (entries c)\<rparr>"

definition unsubscribe :: "query_key \<Rightarrow> 'd cache \<Rightarrow> 'd cache" where
  "unsubscribe k c =
    c\<lparr>entries := modify k (\<lambda>x. x\<lparr>subscriberCount := subscriberCount x - 1\<rparr>) (entries c)\<rparr>"

text \<open>
  Modelled from the spec: the Invalidation Engine behind \<open>invalidateQueries\<close>, absent from
  the source. Every entry whose key the prefix matches gets its \<open>staleAt\<close> put in the past
  of \<open>now\<close>, the time of the call; of those, the entries with a subscriber are refreshed at
  once, which invokes the fetcher unless a fetch for the entry is already in flight.
\<close>

definition refetches :: "query_key \<Rightarrow> 'd entry \<Rightarrow> bool" where
  "refetches pfx x =
    (isPrefixOf pfx (key x) \<and> 0 < subscriberCount x \<and> status x \<noteq> status_pending)"

definition refresh :: "query_key \<Rightarrow> int \<Rightarrow> 'd entry \<Rightarrow> 'd entry" where
  "refresh pfx now x =
    (if isPrefixOf pfx (key x)
     then (if refetches pfx x then x\<lparr>staleAt := now - 1, status := status_pending\<rparr>
           else x\<lparr>staleAt := now - 1\<rparr>)
     else x)"

definition invalidateQueries :: "query_key \<Rightarrow> int \<Rightarrow> 'd cache \<Rightarrow> 'd cache" where
  "invalidateQueries pfx now c =
    c\<lparr>entries := map (refresh pfx now) (entries c),
      fetchLog := fetchLog c @ map key (filter (refetches pfx) (entries c)),
      invalidations := invalidations c @ [pfx]\<rparr>"

text \<open>
  Modelled from the spec: staleness, absent from the source. An entry is stale at a time
  when that time is not before its \<open>staleAt\<close>.
\<close>

definition is_stale :: "int \<Rightarrow> 'd entry \<Rightarrow> bool" where
  "is_stale now x = (\<not> now < staleAt x)"

text \<open>
  Modelled from the spec: the events of the cache, absent from the source, and the state a
  sequence of them leads to from the empty cache.
\<close>

datatype 'd event =
  Request query_key "nat option" int
  | Settle query_key "error + 'd" int int
  | Invalidate query_key int
  | Subscribe query_key
  | Unsubscribe query_key

fun step :: "'d event \<Rightarrow> 'd cache \<Rightarrow> 'd cache" where
  "step (Request k who now) c = snd (request k who now c)"
| "step (Settle k outcome now staleTime) c = snd (settle k outcome now staleTime c)"
| "step (Invalidate pfx now) c = invalidateQueries pfx now c"
| "step (Subscribe k) c = subscribe k c"
| "step (Unsubscribe k) c = unsubscribe k c"

definition run :: "'d event list \<Rightarrow> 'd cache" where
  "run evs = fold step evs empty_cache"

text \<open>
  Modelled from the spec: the fetches in flight for a key, absent from the source: the
  fetcher's invocations for the key's identity that are not yet completed.
\<close>

definition occurrences :: "query_key \<Rightarrow> query_key list \<Rightarrow> nat" where
  "occurrences k ks = length (filter (\<lambda>j. key_eq j k) ks)"

definition inFlight :: "query_key \<Rightarrow> 'd cache \<Rightarrow> nat" where
  "inFlight k c = occurrences k (fetchLog c) - occurrences k (settleLog c)"

text \<open>
  The invariant of the cache that the proofs below maintain: no two entries have the same
  identity, and for every key the fetcher's invocations exceed the completions by one when
  the key's entry is pending and by nothing otherwise.
\<close>

definition pending :: "query_key \<Rightarrow> 'd cache \<Rightarrow> bool" where
  "pending k c =
    (case lookup k (entries c) of None \<Rightarrow> False | Some e \<Rightarrow> status e = status_pending)"

definition cache_inv :: "'d cache \<Rightarrow> bool" where
  "cache_inv c =
    (distinct (map (\<lambda>x. hashKey (key x)) (entries c))
     \<and> (\<forall>k. occurrences k (fetchLog c) =
              occurrences k (settleLog c) + (if pending k c then 1 else 0)))"

subsection \<open>The hooks\<close>

text \<open>
  The options a hook hands to \<open>useQuery\<close>. The query function is a thunk; its value is the
  outcome of the fetch it makes.
\<close>

record 'd query_options =
  queryKey :: query_key
  queryFn :: "error + 'd"
  staleTime :: int
  gcTime :: int

definition usePledgesQuery ::
  "(string \<Rightarrow> string) \<Rightarrow> (unit request \<Rightarrow> 'd response) \<Rightarrow> PledgeQueryParams \<Rightarrow> 'd query_options" where
  "usePledgesQuery enc fetch params =
    \<lparr>queryKey = pledgeKeys_list params,
     queryFn = fetchPledges enc fetch params,
     staleTime = 1000 * 60 * 5,
     gcTime = 1000 * 60 * 30\<rparr>"

text \<open>
  What a mutation hook works on: the query client and the console. The options it hands to
  \<open>useMutation\<close> are the mutation function and the two callbacks.
\<close>

record 'd env =
  queryClient :: "'d cache"
  console :: "(string \<times> error) list"

record ('v, 'r, 'd) mutation_options =
  mutationFn :: "'v \<Rightarrow> error + 'r"
  onSuccess :: "'r \<Rightarrow> 'v \<Rightarrow> 'd env \<Rightarrow> 'd env"
  onError :: "error \<Rightarrow> 'd env \<Rightarrow> 'd env"

text \<open>
  Modelled from the spec: \<open>mutate\<close> is the dispatch of \<open>useMutation\<close>, which is not in the
  module's source: it runs the mutation function, then \<open>onSuccess\<close> with the result and
  the variables when it resolves, \<open>onError\<close> with the error when it throws, and hands the
  outcome to the caller.
\<close>

definition mutate :: "('v, 'r, 'd) mutation_options \<Rightarrow> 'v \<Rightarrow> 'd env \<Rightarrow> (error + 'r) \<times> 'd env" where
  "mutate opts variables w =
    (case mutationFn opts variables of
       Inr result \<Rightarrow> (Inr result, onSuccess opts result variables w)
     | Inl err \<Rightarrow> (Inl err, onError opts err w))"

text \<open>
  The two effects of the callbacks: \<open>queryClient.invalidateQueries({queryKey})\<close> and
  \<open>console.error(message, error)\<close>. The parameter \<open>now\<close> of a hook is the time at which its
  success callback runs.
\<close>

definition invalidate :: "query_key \<Rightarrow> int \<Rightarrow> 'd env \<Rightarrow> 'd env" where
  "invalidate pfx now w = w\<lparr>queryClient := invalidateQueries pfx now (queryClient w)\<rparr>"

definition console_error :: "string \<Rightarrow> error \<Rightarrow> 'd env \<Rightarrow> 'd env" where
  "console_error msg err w = w\<lparr>console := console w @ [(msg, err)]\<rparr>"

text \<open>
  The success callback of the two pledge hooks (the same body in both).
  \<open>if (variables.categoryId)\<close>: an absent identifier and the number 0 are falsy.
\<close>

definition createPledge_onSuccess ::
  "int \<Rightarrow> 'r \<Rightarrow> 'z CreatePledgeData_scheme \<Rightarrow> 'd env \<Rightarrow> 'd env" where
  "createPledge_onSuccess now result variables w =
    (let w1 = invalidate pledgeKeys_all now w;
         w2 = invalidate (pledgeKeys_list [(''contactId'', Num (contactId variables))]) now w1
     in case categoryId variables of
          None \<Rightarrow> w2
        | Some g \<Rightarrow>
            if g \<noteq> 0 then invalidate (pledgeKeys_list [(''categoryId'', Num g)]) now w2
            else w2)"

definition useCreatePledgeMutation ::
  "int \<Rightarrow> (CreatePledgeData request \<Rightarrow> 'r response) \<Rightarrow> (CreatePledgeData, 'r, 'd) mutation_options" where
  "useCreatePledgeMutation now fetch =
    \<lparr>mutationFn = createPledge fetch,
     onSuccess = createPledge_onSuccess now,
     onError = (\<lambda>err. console_error ''Error creating pledge:'' err)\<rparr>"

definition useCreatePaymentMutation ::
  "int \<Rightarrow> (CreatePaymentData request \<Rightarrow> 'r response) \<Rightarrow> (CreatePaymentData, 'r, 'd) mutation_options" where
  "useCreatePaymentMutation now fetch =
    \<lparr>mutationFn = createPayment fetch,
     onSuccess = (\<lambda>result variables w.
        let w1 = invalidate paymentKeys_all now w;
            w2 = invalidate (paymentKeys_byPledge (pledgeId variables)) now w1;
            w3 = invalidate pledgeKeys_all now w2
        in invalidate (pledgeKeys_detail (pledgeId variables)) now w3),
     onError = (\<lambda>err. console_error ''Error creating payment:'' err)\<rparr>"

definition useCreatePledgeAndPayMutation ::
  "int \<Rightarrow> (CreatePledgeData request \<Rightarrow> 'p CreatePledgeResponse response)
     \<Rightarrow> (CreatePledgeAndPayData, 'p CreatePledgeAndPayResponse, 'd) mutation_options" where
  "useCreatePledgeAndPayMutation now fetch =
    \<lparr>mutationFn = createPledgeAndPay fetch,
     onSuccess = createPledge_onSuccess now,
     onError = (\<lambda>err. console_error ''Error creating pledge:'' err)\<rparr>"

subsection \<open>Example inputs\<close>

text \<open>
  Concrete inputs for the examples below: a server that accepts every request with a
  given body, one that rejects every request, a payment for pledge 7, pledges for
  contact 3, a cache of fresh entries (fetched at time 0, stale from time 1000), the
  list key of contact 3 with the caches that one and two requests for it leave, the cache
  after its fetch succeeds at time 100, that cache after a payment is created at time 200,
  and a cache in which a subscribed entry with data is being refetched for two callers.
\<close>

definition accept :: "'a \<Rightarrow> 'b request \<Rightarrow> 'a response" where
  "accept j req = \<lparr>ok = True, statusText = ''OK'', json_error = None, json = j\<rparr>"

definition reject :: "'a \<Rightarrow> 'b request \<Rightarrow> 'a response" where
  "reject j req =
    \<lparr>ok = False, statusText = ''Bad Request'', json_error = Some ''Pledge not found'', json = j\<rparr>"

definition payment_for_7 :: CreatePaymentData where
  "payment_for_7 =
    \<lparr>pledgeId = 7, amount = 100, currency = ''USD'', amountUsd = None,
     paymentDate = ''2025-01-15'', receivedDate = None, paymentMethod = None,
     paymentStatus = Some PaymentCompleted, referenceNumber = None, checkNumber = None,
     receiptNumber = None, receiptIssued = None, notes' = None, paymentPlanId = None\<rparr>"

definition pledge_of :: "int option \<Rightarrow> CreatePledgeData" where
  "pledge_of category =
    \<lparr>contactId = 3, categoryId = category, pledgeDate = ''2025-01-15'',
     description = ''Building fund'', originalAmount = 500, currency = ''USD'',
     originalAmountUsd = 500, notes' = None\<rparr>"

definition pledge_and_pay_of :: "int option \<Rightarrow> CreatePledgeAndPayData" where
  "pledge_and_pay_of category =
    \<lparr>contactId = 3, categoryId = category, pledgeDate = ''2025-01-15'',
     description = ''Building fund'', originalAmount = 500, currency = ''USD'',
     originalAmountUsd = 500, notes' = None,
     CreatePledgeAndPayData.shouldRedirectToPay = True\<rparr>"

definition fresh_entry :: "query_key \<Rightarrow> nat \<Rightarrow> unit entry" where
  "fresh_entry k n =
    \<lparr>key = k, status = status_success, data = Some (), error = None, fetchedAt = 0,
     staleAt = 1000, subscriberCount = n, waiters = []\<rparr>"

definition env_of :: "unit entry list \<Rightarrow> unit env" where
  "env_of es =
    \<lparr>queryClient = \<lparr>entries = es, fetchLog = [], settleLog = [], invalidations = []\<rparr>,
     console = []\<rparr>"

definition example_key :: query_key where
  "example_key = pledgeKeys_list [(''contactId'', Num 3)]"





definition refetching :: "unit cache" where
  "refetching =
    \<lparr>entries = [(fresh_entry example_key 1)\<lparr>status := status_pending, waiters := [1, 2]\<rparr>,
                fresh_entry pledgeKeys_details 1],
     fetchLog = [example_key], settleLog = [], invalidations = []\<rparr>"

section \<open>Properties\<close>

lemma sort_key_fst_value_equal:
  assumes "distinct (map fst xs)" and "distinct (map fst ys)" and "map_of xs = map_of ys"
  shows "sort_key fst xs = sort_key fst (ys :: (string \<times> js_value) list)"
proof -
  have s: "set xs = set ys"
    using assms map_of_inject_set by blast
  have "distinct xs" and "distinct ys"
    using assms(1,2) by (simp_all add: distinct_map)
  then have m: "mset xs = mset ys"
    using s by (simp add: set_eq_iff_mset_eq_distinct)
  have inj: "inj_on fst (set xs)"
    using assms(1) by (simp add: distinct_map)
  have "sort_key fst xs = sort_key fst ys"
  proof (rule sort_key_inj_key_eq)
    show "mset xs = mset (sort_key fst ys)" using m by simp
    show "inj_on fst (set xs)" by (rule inj)
    show "sorted (map fst (sort_key fst ys))" by simp
  qed
  then show ?thesis .
qed

subsection \<open>The key builders\<close>

lemmas key_defs = pledgeKeys_all_def pledgeKeys_lists_def pledgeKeys_list_def
  pledgeKeys_details_def pledgeKeys_detail_def paymentKeys_all_def paymentKeys_lists_def
  paymentKeys_byPledge_def paymentKeys_byContact_def

text \<open>
  Claim C7. The keys built by the module form a prefix hierarchy, for every parameter bag
  and every identifier: the root of the pledge family is a prefix of the list key, which
  is a prefix of every parameterised list key; the root is a prefix of the detail key of
  every identifier; and in the payment family the root is a prefix of the list key, which
  is a prefix of the key of every pledge and of every contact. This holds for the prefix
  order on key arrays and for the matching \<open>isPrefixOf\<close> used by invalidation.
\<close>

theorem key_prefix_hierarchy:
  "prefix pledgeKeys_all pledgeKeys_lists
   \<and> prefix pledgeKeys_lists (pledgeKeys_list params)
   \<and> prefix pledgeKeys_all pledgeKeys_details
   \<and> prefix pledgeKeys_details (pledgeKeys_detail n)
   \<and> prefix pledgeKeys_all (pledgeKeys_detail n)
   \<and> prefix paymentKeys_all paymentKeys_lists
   \<and> prefix paymentKeys_lists (paymentKeys_byPledge n)
   \<and> prefix paymentKeys_lists (paymentKeys_byContact n)
   \<and> prefix paymentKeys_all (paymentKeys_byPledge n)
   \<and> prefix paymentKeys_all (paymentKeys_byContact n)
   \<and> isPrefixOf pledgeKeys_all pledgeKeys_lists
   \<and> isPrefixOf pledgeKeys_lists (pledgeKeys_list params)
   \<and> isPrefixOf pledgeKeys_all (pledgeKeys_detail n)
   \<and> isPrefixOf paymentKeys_all paymentKeys_lists
   \<and> isPrefixOf paymentKeys_lists (paymentKeys_byPledge n)
   \<and> isPrefixOf paymentKeys_lists (paymentKeys_byContact n)"
  by (simp add: key_defs)

text \<open>
  Claim C6. The key builders are functions, so they are total and give equal keys on equal
  arguments. For parameter bags that are equal by value (the same fields with the same
  values, each field once) in whatever insertion order, the list keys built from them are
  the same cache identity: their canonical forms coincide, and a lookup with one finds
  what a lookup with the other finds.
\<close>

theorem key_builders_value_equal:
  assumes "distinct (map fst p1)" and "distinct (map fst p2)" and "map_of p1 = map_of p2"
  shows "key_eq (pledgeKeys_list p1) (pledgeKeys_list p2)
         \<and> lookup (pledgeKeys_list p1) es = lookup (pledgeKeys_list p2) es"
proof -
  have "sort_key fst p1 = sort_key fst p2"
    using assms by (rule sort_key_fst_value_equal)
  then have h: "hashKey (pledgeKeys_list p1) = hashKey (pledgeKeys_list p2)"
    by (simp add: hashKey_def key_defs)
  then show ?thesis
    by (simp add: key_eq_def lookup_def)
qed

text \<open>
  The two bags \<open>{contactId: 3, page: 2}\<close> and \<open>{page: 2, contactId: 3}\<close> give keys that
  differ as arrays and are the same cache identity.
\<close>

theorem key_builders_value_equal_witness:
  "key_eq (pledgeKeys_list [(''contactId'', Num 3), (''page'', Num 2)])
          (pledgeKeys_list [(''page'', Num 2), (''contactId'', Num 3)])
   \<and> pledgeKeys_list [(''contactId'', Num 3), (''page'', Num 2)]
       \<noteq> pledgeKeys_list [(''page'', Num 2), (''contactId'', Num 3)]"
proof -
  have d1: "distinct (map fst [(''contactId'', Num 3), (''page'', Num 2)])" by simp
  have d2: "distinct (map fst [(''page'', Num 2), (''contactId'', Num 3)])" by simp
  have m: "map_of [(''contactId'', Num 3), (''page'', Num 2)]
           = map_of [(''page'', Num 2), (''contactId'', Num 3)]"
    by (auto simp: fun_eq_iff)
  have ne: "pledgeKeys_list [(''contactId'', Num 3), (''page'', Num 2)]
       \<noteq> pledgeKeys_list [(''page'', Num 2), (''contactId'', Num 3)]"
    by (simp add: key_defs)
  from key_builders_value_equal [OF d1 d2 m] ne show ?thesis by blast
qed

subsection \<open>The query string of \<open>fetchPledges\<close>\<close>

lemma appendEntries_acc:
  "\<exists>sp. appendEntries params acc = Inr (acc @ sp)
        \<and> list_all2 (\<lambda>(k, v) (k', s). k' = k \<and> toString v = Inr s)
             (filter (\<lambda>(k, v). v \<noteq> Undefined \<and> v \<noteq> Null \<and> v \<noteq> Str []) params) sp"
proof (induction params arbitrary: acc)
  case Nil
  then show ?case by simp
next
  case (Cons kv params)
  obtain k v where kv: "kv = (k, v)" by (cases kv)
  show ?case
  proof (cases "v \<noteq> Undefined \<and> v \<noteq> Null \<and> v \<noteq> Str []")
    case True
    then obtain s where s: "toString v = Inr s" by (cases v) auto
    from Cons.IH [of "acc @ [(k, s)]"] obtain sp where
      "appendEntries params (acc @ [(k, s)]) = Inr ((acc @ [(k, s)]) @ sp)"
      "list_all2 (\<lambda>(k, v) (k', s). k' = k \<and> toString v = Inr s)
             (filter (\<lambda>(k, v). v \<noteq> Undefined \<and> v \<noteq> Null \<and> v \<noteq> Str []) params) sp"
      by blast
    then show ?thesis
      using True s kv by (intro exI [of _ "(k, s) # sp"]) simp
  next
    case False
    then show ?thesis using Cons.IH [of acc] kv by auto
  qed
qed

text \<open>
  Claim C9. For every parameter bag, building the query never throws, and the pairs
  appended to \<open>searchParams\<close> are, in order, exactly the fields of the bag whose value is
  neither \<open>undefined\<close>, \<open>null\<close> nor the empty string, each with its own name and the
  \<open>toString()\<close> of its value; a field with one of those three values contributes no pair.
  The request goes to \<open>/api/pledges?\<close> followed by the serialisation of those pairs.
\<close>

theorem fetchPledges_query_string:
  "\<exists>sp. appendEntries params [] = Inr sp
     \<and> list_all2 (\<lambda>(k, v) (k', s). k' = k \<and> toString v = Inr s)
          (filter (\<lambda>(k, v). v \<noteq> Undefined \<and> v \<noteq> Null \<and> v \<noteq> Str []) params) sp
     \<and> fetchPledges enc fetch params =
         (let response = fetch \<lparr>url = ''/api/pledges?'' @ URLSearchParams_toString enc sp,
                                 httpMethod = ''GET'', headers = [], body = None\<rparr>
          in if ok response then Inr (json response)
             else Inl (Error (''Failed to fetch pledges: '' @ statusText response)))"
proof -
  from appendEntries_acc [of params "[]"] obtain sp where
    a: "appendEntries params [] = Inr sp" and
    b: "list_all2 (\<lambda>(k, v) (k', s). k' = k \<and> toString v = Inr s)
          (filter (\<lambda>(k, v). v \<noteq> Undefined \<and> v \<noteq> Null \<and> v \<noteq> Str []) params) sp"
    by auto
  have "fetchPledges enc fetch params =
         (let response = fetch \<lparr>url = ''/api/pledges?'' @ URLSearchParams_toString enc sp,
                                 httpMethod = ''GET'', headers = [], body = None\<rparr>
          in if ok response then Inr (json response)
             else Inl (Error (''Failed to fetch pledges: '' @ statusText response)))"
    by (simp add: fetchPledges_def a Let_def)
  with a b show ?thesis by blast
qed

text \<open>
  An example: the empty search string, the undefined status and the null end date are
  left out; the numbers 0 and -12 are kept.
\<close>

lemma fetchPledges_example:
  "appendEntries [(''contactId'', Num 3), (''search'', Str []), (''status'', Undefined),
                  (''page'', Num 0), (''limit'', Num (- 12)), (''endDate'', Null),
                  (''startDate'', Str ''2024-01-01'')] []
     = Inr [(''contactId'', ''3''), (''page'', ''0''), (''limit'', ''-12''),
            (''startDate'', ''2024-01-01'')]
   \<and> URLSearchParams_toString id [(''contactId'', ''3''), (''page'', ''0'')]
       = ''contactId=3&page=0''"
  by (simp add: Number_toString_def digits.simps)

subsection \<open>The mutation function of \<open>useCreatePledgeAndPayMutation\<close>\<close>

text \<open>
  Claim C10. For every input, the mutation function posts to \<open>/api/pledges\<close> a body that
  holds every field of the input with the input's value and has no \<open>shouldRedirectToPay\<close>
  field; when the response is ok it resolves to the response's fields extended with
  \<open>shouldRedirectToPay\<close> equal to the input's value, and otherwise it fails with the error
  of \<open>createPledge\<close>.
\<close>

theorem createPledgeAndPay_body_and_result:
  "createPledgeAndPay fetch input =
    (let response = fetch \<lparr>url = ''/api/pledges'', httpMethod = ''POST'',
                            headers = [(''Content-Type'', ''application/json'')],
                            body = Some \<lparr>contactId = contactId input, categoryId = categoryId input,
                                         pledgeDate = pledgeDate input, description = description input,
                                         originalAmount = originalAmount input,
                                         currency = CreatePledgeData.currency input,
                                         originalAmountUsd = originalAmountUsd input,
                                         notes' = CreatePledgeData.notes' input\<rparr>\<rparr>
     in if ok response
        then Inr \<lparr>message = message (json response), pledge = pledge (json response),
                  shouldRedirectToPay = CreatePledgeAndPayData.shouldRedirectToPay input\<rparr>
        else Inl (Error (or_else (json_error response)
                           (''Failed to create pledge: '' @ statusText response))))"
  by (cases input) (simp add: createPledgeAndPay_def createPledge_def Let_def
      CreatePledgeData.truncate_def CreatePledgeResponse.extend_def
      CreatePledgeAndPayResponse.fields_def CreatePledgeData.defs CreatePledgeResponse.defs)

subsection \<open>Invalidation after a mutation\<close>

lemma isPrefixOf_append: "isPrefixOf (a @ b) k \<Longrightarrow> isPrefixOf a k"
  by (induction a k rule: isPrefixOf.induct) auto

lemma key_refresh [simp]: "key (refresh p now x) = key x"
  by (simp add: refresh_def)

lemma staleAt_refresh:
  "staleAt (refresh p now x) = (if isPrefixOf p (key x) then now - 1 else staleAt x)"
  by (simp add: refresh_def)

lemma refresh_unmatched: "\<not> isPrefixOf p (key x) \<Longrightarrow> refresh p now x = x"
  by (simp add: refresh_def)

lemma invalidate_simps [simp]:
  "entries (queryClient (invalidate p now w)) = map (refresh p now) (entries (queryClient w))"
  "invalidations (queryClient (invalidate p now w)) = invalidations (queryClient w) @ [p]"
  "fetchLog (queryClient (invalidate p now w)) =
     fetchLog (queryClient w) @ map key (filter (refetches p) (entries (queryClient w)))"
  "settleLog (queryClient (invalidate p now w)) = settleLog (queryClient w)"
  "console (invalidate p now w) = console w"
  by (simp_all add: invalidate_def invalidateQueries_def)

lemma createPayment_onSuccess_entries:
  "entries (queryClient (onSuccess (useCreatePaymentMutation now fetch) result variables w)) =
     map (refresh (pledgeKeys_detail (pledgeId variables)) now \<circ> refresh pledgeKeys_all now
          \<circ> refresh (paymentKeys_byPledge (pledgeId variables)) now \<circ> refresh paymentKeys_all now)
       (entries (queryClient w))"
  by (simp add: useCreatePaymentMutation_def Let_def)

lemma byPledge_under_all: "isPrefixOf (paymentKeys_byPledge n) k \<Longrightarrow> isPrefixOf paymentKeys_all k"
  unfolding paymentKeys_byPledge_def paymentKeys_lists_def
  by (metis append_assoc isPrefixOf_append)

lemma byContact_under_all: "isPrefixOf (paymentKeys_byContact n) k \<Longrightarrow> isPrefixOf paymentKeys_all k"
  unfolding paymentKeys_byContact_def paymentKeys_lists_def
  by (metis append_assoc isPrefixOf_append)

lemma detail_under_all: "isPrefixOf (pledgeKeys_detail n) k \<Longrightarrow> isPrefixOf pledgeKeys_all k"
  unfolding pledgeKeys_detail_def pledgeKeys_details_def
  by (metis append_assoc isPrefixOf_append)

lemma lists_under_all: "isPrefixOf pledgeKeys_lists k \<Longrightarrow> isPrefixOf pledgeKeys_all k"
  unfolding pledgeKeys_lists_def by (rule isPrefixOf_append)

lemma list_under_all: "isPrefixOf (pledgeKeys_list b) k \<Longrightarrow> isPrefixOf pledgeKeys_all k"
  unfolding pledgeKeys_list_def pledgeKeys_lists_def
  by (metis append_assoc isPrefixOf_append)

lemma payment_refresh_chain:
  "key (refresh d now (refresh pl now (refresh bp now (refresh pa now x)))) = key x"
  "\<not> isPrefixOf pa (key x) \<Longrightarrow> \<not> isPrefixOf pl (key x) \<Longrightarrow>
     \<not> isPrefixOf bp (key x) \<Longrightarrow> \<not> isPrefixOf d (key x) \<Longrightarrow>
     refresh d now (refresh pl now (refresh bp now (refresh pa now x))) = x"
  "isPrefixOf pa (key x) \<or> isPrefixOf pl (key x) \<Longrightarrow>
     staleAt (refresh d now (refresh pl now (refresh bp now (refresh pa now x)))) = now - 1"
  by (auto simp: staleAt_refresh refresh_unmatched)

text \<open>
  Claim C1, as amended. When \<open>createPayment\<close> succeeds, the mutation resolves with its
  result and the invalidation step marks stale exactly the cached entries whose key has
  the prefix \<open>[payments]\<close> or \<open>[pledges]\<close>: each of them gets its \<open>staleAt\<close> put before the
  present, and every other entry is left as it was. The prefixes of the payments of the
  pledge and of any contact lie under \<open>[payments]\<close>, and the pledge lists and the pledge's
  detail lie under \<open>[pledges]\<close>, so all of those are among the entries marked.
\<close>

theorem createPayment_invalidation:
  assumes "createPayment fetch variables = Inr result"
  shows "fst (mutate (useCreatePaymentMutation now fetch) variables w) = Inr result
     \<and> list_all2 (\<lambda>x x'. key x' = key x
           \<and> (if isPrefixOf paymentKeys_all (key x) \<or> isPrefixOf pledgeKeys_all (key x)
               then staleAt x' = now - 1 \<and> is_stale now x' else x' = x))
         (entries (queryClient w))
         (entries (queryClient (snd (mutate (useCreatePaymentMutation now fetch) variables w))))
     \<and> ((isPrefixOf (paymentKeys_byPledge (pledgeId variables)) k
          \<or> isPrefixOf (paymentKeys_byContact c) k) \<longrightarrow> isPrefixOf paymentKeys_all k)
     \<and> ((isPrefixOf pledgeKeys_lists k \<or> isPrefixOf (pledgeKeys_detail (pledgeId variables)) k)
          \<longrightarrow> isPrefixOf pledgeKeys_all k)"
proof -
  let ?opts = "useCreatePaymentMutation now fetch :: (CreatePaymentData, 'a, 'b) mutation_options"
  have fn: "mutationFn ?opts variables = Inr result"
    using assms by (simp add: useCreatePaymentMutation_def)
  then have m: "mutate ?opts variables w = (Inr result, onSuccess ?opts result variables w)"
    by (simp add: mutate_def)
  have "list_all2 (\<lambda>x x'. key x' = key x
           \<and> (if isPrefixOf paymentKeys_all (key x) \<or> isPrefixOf pledgeKeys_all (key x)
               then staleAt x' = now - 1 \<and> is_stale now x' else x' = x))
         (entries (queryClient w))
         (entries (queryClient (onSuccess ?opts result variables w)))"
    unfolding createPayment_onSuccess_entries list_all2_map2
  proof (rule list_all2_refl)
    fix x :: "'b entry"
    let ?x' = "(refresh (pledgeKeys_detail (pledgeId variables)) now \<circ> refresh pledgeKeys_all now
          \<circ> refresh (paymentKeys_byPledge (pledgeId variables)) now \<circ> refresh paymentKeys_all now) x"
    show "key ?x' = key x
           \<and> (if isPrefixOf paymentKeys_all (key x) \<or> isPrefixOf pledgeKeys_all (key x)
               then staleAt ?x' = now - 1 \<and> is_stale now ?x' else ?x' = x)"
    proof (cases "isPrefixOf paymentKeys_all (key x) \<or> isPrefixOf pledgeKeys_all (key x)")
      case True
      then show ?thesis
        by (simp add: payment_refresh_chain(3) is_stale_def)
    next
      case False
      then have "\<not> isPrefixOf (paymentKeys_byPledge (pledgeId variables)) (key x)"
        and "\<not> isPrefixOf (pledgeKeys_detail (pledgeId variables)) (key x)"
        using byPledge_under_all detail_under_all by blast+
      with False show ?thesis
        by (simp add: payment_refresh_chain(2))
    qed
  qed
  then show ?thesis
    using m byPledge_under_all byContact_under_all lists_under_all detail_under_all
    by auto
qed


lemma createPayment_accept: "createPayment (accept j) v = Inr j"
  by (simp add: createPayment_def accept_def)

lemma createPledge_accept: "createPledge (accept j) v = Inr j"
  by (simp add: createPledge_def accept_def)

lemma mutate_payment_accept:
  "mutate (useCreatePaymentMutation now (accept j)) v w =
     (Inr j, invalidate (pledgeKeys_detail (pledgeId v)) now
               (invalidate pledgeKeys_all now
                 (invalidate (paymentKeys_byPledge (pledgeId v)) now
                   (invalidate paymentKeys_all now w))))"
  by (simp add: mutate_def useCreatePaymentMutation_def createPayment_accept Let_def)

text \<open>
  The claim as stated fails: after a payment for pledge 7, a fresh cached entry for the
  payments of pledge 8 is stale, though its key has none of the prefixes
  \<open>paymentKeys.byPledge(7)\<close>, \<open>paymentKeys.byContact(3)\<close>, \<open>pledgeKeys.lists()\<close> and
  \<open>pledgeKeys.detail(7)\<close>.
\<close>

theorem createPayment_invalidation_counterexample:
  "fst (mutate (useCreatePaymentMutation 10 (accept ())) payment_for_7
          (env_of [fresh_entry (paymentKeys_byPledge 8) 0])) = Inr ()
   \<and> \<not> is_stale 10 (fresh_entry (paymentKeys_byPledge 8) 0)
   \<and> entries (queryClient (snd (mutate (useCreatePaymentMutation 10 (accept ())) payment_for_7
          (env_of [fresh_entry (paymentKeys_byPledge 8) 0]))))
       = [(fresh_entry (paymentKeys_byPledge 8) 0)\<lparr>staleAt := 9\<rparr>]
   \<and> is_stale 10 ((fresh_entry (paymentKeys_byPledge 8) 0)\<lparr>staleAt := 9\<rparr>)
   \<and> \<not> isPrefixOf (paymentKeys_byPledge (pledgeId payment_for_7)) (paymentKeys_byPledge 8)
   \<and> \<not> isPrefixOf (paymentKeys_byContact 3) (paymentKeys_byPledge 8)
   \<and> \<not> isPrefixOf pledgeKeys_lists (paymentKeys_byPledge 8)
   \<and> \<not> isPrefixOf (pledgeKeys_detail (pledgeId payment_for_7)) (paymentKeys_byPledge 8)"
  by (simp add: mutate_payment_accept is_stale_def refresh_def refetches_def
        fresh_entry_def env_of_def payment_for_7_def key_defs)

text \<open>
  A payment for pledge 7 against a cache holding the payments of pledge 7 and an unrelated
  entry: the first is marked stale, the second keeps its \<open>staleAt\<close>.
\<close>

theorem createPayment_invalidation_witness:
  "createPayment (accept ()) payment_for_7 = Inr ()
   \<and> fst (mutate (useCreatePaymentMutation 10 (accept ())) payment_for_7
            (env_of [fresh_entry (paymentKeys_byPledge 7) 0, fresh_entry [KStr ''contacts''] 0]))
       = Inr ()
   \<and> map staleAt (entries (queryClient (snd (mutate (useCreatePaymentMutation 10 (accept ()))
            payment_for_7
            (env_of [fresh_entry (paymentKeys_byPledge 7) 0, fresh_entry [KStr ''contacts''] 0])))))
       = [9, 1000]
   \<and> isPrefixOf paymentKeys_all (paymentKeys_byPledge 7)"
proof -
  have h: "createPayment (accept ()) payment_for_7 = Inr ()"
    by (rule createPayment_accept)
  have p: "isPrefixOf (paymentKeys_byPledge (pledgeId payment_for_7)) (paymentKeys_byPledge 7)"
    by (simp add: payment_for_7_def key_defs)
  from createPayment_invalidation [OF h, of 10
      "env_of [fresh_entry (paymentKeys_byPledge 7) 0, fresh_entry [KStr ''contacts''] 0]"
      "paymentKeys_byPledge 7" 3]
  have a: "fst (mutate (useCreatePaymentMutation 10 (accept ())) payment_for_7
            (env_of [fresh_entry (paymentKeys_byPledge 7) 0, fresh_entry [KStr ''contacts''] 0]))
       = Inr ()"
    and b: "isPrefixOf paymentKeys_all (paymentKeys_byPledge 7)"
    using p by blast+
  have c: "map staleAt (entries (queryClient (snd (mutate (useCreatePaymentMutation 10 (accept ()))
            payment_for_7
            (env_of [fresh_entry (paymentKeys_byPledge 7) 0, fresh_entry [KStr ''contacts''] 0])))))
       = [9, 1000]"
    by (simp add: mutate_payment_accept refresh_def refetches_def
        fresh_entry_def env_of_def payment_for_7_def key_defs)
  from h a b c show ?thesis by blast
qed

lemma createPledge_onSuccess_invalidations:
  assumes "categoryId v \<noteq> Some 0"
  shows "invalidations (queryClient (createPledge_onSuccess now r v w)) =
     invalidations (queryClient w)
       @ [pledgeKeys_all, pledgeKeys_list [(''contactId'', Num (contactId v))]]
       @ (case categoryId v of None \<Rightarrow> []
          | Some g \<Rightarrow> [pledgeKeys_list [(''categoryId'', Num g)]])"
  using assms by (simp add: createPledge_onSuccess_def Let_def split: option.splits)

lemma marked_base:
  "key (refresh pledgeKeys_all now x) = key x
   \<and> (if isPrefixOf pledgeKeys_all (key x)
       then staleAt (refresh pledgeKeys_all now x) = now - 1
          \<and> is_stale now (refresh pledgeKeys_all now x)
       else refresh pledgeKeys_all now x = x)"
  by (simp add: staleAt_refresh refresh_unmatched is_stale_def)

lemma marked_step:
  assumes "\<And>k. isPrefixOf q k \<Longrightarrow> isPrefixOf pledgeKeys_all k"
    and "key x' = key x
         \<and> (if isPrefixOf pledgeKeys_all (key x)
             then staleAt x' = now - 1 \<and> is_stale now x' else x' = x)"
  shows "key (refresh q now x') = key x
         \<and> (if isPrefixOf pledgeKeys_all (key x)
             then staleAt (refresh q now x') = now - 1 \<and> is_stale now (refresh q now x')
             else refresh q now x' = x)"
  using assms(1) [of "key x"] assms(2)
  by (auto simp: staleAt_refresh refresh_unmatched is_stale_def)

lemma createPledge_onSuccess_entries:
  "list_all2 (\<lambda>x x'. key x' = key x
        \<and> (if isPrefixOf pledgeKeys_all (key x)
            then staleAt x' = now - 1 \<and> is_stale now x' else x' = x))
     (entries (queryClient w))
     (entries (queryClient (createPledge_onSuccess now r v w)))"
proof -
  have short: "entries (queryClient (createPledge_onSuccess now r v w)) =
      map (\<lambda>x. refresh (pledgeKeys_list [(''contactId'', Num (contactId v))]) now
                 (refresh pledgeKeys_all now x)) (entries (queryClient w))"
    if "categoryId v = None \<or> categoryId v = Some 0"
    using that by (auto simp: createPledge_onSuccess_def Let_def comp_def)
  have long: "entries (queryClient (createPledge_onSuccess now r v w)) =
        map (\<lambda>x. refresh (pledgeKeys_list [(''categoryId'', Num g)]) now
                 (refresh (pledgeKeys_list [(''contactId'', Num (contactId v))]) now
                   (refresh pledgeKeys_all now x))) (entries (queryClient w))"
    if "categoryId v = Some g" "g \<noteq> 0" for g
    using that by (simp add: createPledge_onSuccess_def Let_def comp_def)
  show ?thesis
  proof (cases "categoryId v = None \<or> categoryId v = Some 0")
    case True
    show ?thesis
      unfolding short [OF True] list_all2_map2
      by (rule list_all2_refl, rule marked_step, erule list_under_all, rule marked_base)
  next
    case False
    then obtain g where g: "categoryId v = Some g" "g \<noteq> 0" by auto
    show ?thesis
      unfolding long [OF g] list_all2_map2
      by (rule list_all2_refl, rule marked_step, erule list_under_all,
          rule marked_step, erule list_under_all, rule marked_base)
  qed
qed

text \<open>
  Claim C2, as amended. When the pledge is created (by either pledge hook) and the
  category identifier is absent or other than 0, the invalidation step hands
  \<open>invalidateQueries\<close> the prefix \<open>[pledges]\<close>, then \<open>pledgeKeys.list({contactId})\<close>, and then
  \<open>pledgeKeys.list({categoryId})\<close> exactly when the category identifier is present. The
  prefix \<open>[pledges]\<close> matches every key under \<open>[pledges, list]\<close>, and every cached entry
  whose key lies under \<open>[pledges]\<close> is marked stale while every other entry is left as it
  was.
\<close>

theorem createPledge_invalidation:
  assumes "createPledge fetch v = Inr r" and "categoryId v \<noteq> Some 0"
    and "createPledgeAndPay fetch' v' = Inr r'" and "categoryId v' \<noteq> Some 0"
  shows "fst (mutate (useCreatePledgeMutation now fetch) v w) = Inr r
    \<and> invalidations (queryClient (snd (mutate (useCreatePledgeMutation now fetch) v w))) =
        invalidations (queryClient w)
          @ [pledgeKeys_all, pledgeKeys_list [(''contactId'', Num (contactId v))]]
          @ (case categoryId v of None \<Rightarrow> []
             | Some g \<Rightarrow> [pledgeKeys_list [(''categoryId'', Num g)]])
    \<and> list_all2 (\<lambda>x x'. key x' = key x
          \<and> (if isPrefixOf pledgeKeys_all (key x)
              then staleAt x' = now - 1 \<and> is_stale now x' else x' = x))
        (entries (queryClient w))
        (entries (queryClient (snd (mutate (useCreatePledgeMutation now fetch) v w))))
    \<and> fst (mutate (useCreatePledgeAndPayMutation now fetch') v' w') = Inr r'
    \<and> invalidations (queryClient (snd (mutate (useCreatePledgeAndPayMutation now fetch') v' w'))) =
        invalidations (queryClient w')
          @ [pledgeKeys_all, pledgeKeys_list [(''contactId'', Num (contactId v'))]]
          @ (case categoryId v' of None \<Rightarrow> []
             | Some g \<Rightarrow> [pledgeKeys_list [(''categoryId'', Num g)]])
    \<and> list_all2 (\<lambda>x x'. key x' = key x
          \<and> (if isPrefixOf pledgeKeys_all (key x)
              then staleAt x' = now - 1 \<and> is_stale now x' else x' = x))
        (entries (queryClient w'))
        (entries (queryClient (snd (mutate (useCreatePledgeAndPayMutation now fetch') v' w'))))
    \<and> isPrefixOf pledgeKeys_all pledgeKeys_lists"
proof -
  have m: "mutate (useCreatePledgeMutation now fetch) v w
            = (Inr r, createPledge_onSuccess now r v w)"
    using assms(1) by (simp add: mutate_def useCreatePledgeMutation_def)
  have m': "mutate (useCreatePledgeAndPayMutation now fetch') v' w'
            = (Inr r', createPledge_onSuccess now r' v' w')"
    using assms(3) by (simp add: mutate_def useCreatePledgeAndPayMutation_def)
  have p: "isPrefixOf pledgeKeys_all pledgeKeys_lists"
    by (simp add: key_defs)
  show ?thesis
    unfolding m m' fst_conv snd_conv
    using createPledge_onSuccess_invalidations [OF assms(2), of now r w]
      createPledge_onSuccess_invalidations [OF assms(4), of now r' w']
      createPledge_onSuccess_entries [of now w r v]
      createPledge_onSuccess_entries [of now w' r' v'] p
    by blast
qed


lemma mutate_pledge_accept:
  "mutate (useCreatePledgeMutation now (accept j)) v w = (Inr j, createPledge_onSuccess now j v w)"
  by (simp add: mutate_def useCreatePledgeMutation_def createPledge_accept)

text \<open>
  The claim as stated fails: for a pledge with \<open>categoryId = 0\<close> the identifier is present,
  yet the prefixes handed to \<open>invalidateQueries\<close> are \<open>[pledges]\<close> and the contact's list
  key only; neither the category's list key nor \<open>[pledges, list]\<close> is among them.
\<close>

theorem createPledge_invalidation_counterexample:
  "categoryId (pledge_of (Some 0)) = Some 0
   \<and> fst (mutate (useCreatePledgeMutation 10 (accept ())) (pledge_of (Some 0)) (env_of []))
       = Inr ()
   \<and> invalidations (queryClient (snd (mutate (useCreatePledgeMutation 10 (accept ()))
          (pledge_of (Some 0)) (env_of []))))
       = [pledgeKeys_all, pledgeKeys_list [(''contactId'', Num 3)]]
   \<and> pledgeKeys_list [(''categoryId'', Num 0)]
       \<notin> set (invalidations (queryClient (snd (mutate (useCreatePledgeMutation 10 (accept ()))
          (pledge_of (Some 0)) (env_of [])))))
   \<and> pledgeKeys_lists
       \<notin> set (invalidations (queryClient (snd (mutate (useCreatePledgeMutation 10 (accept ()))
          (pledge_of (Some 0)) (env_of [])))))"
  by (simp add: mutate_pledge_accept createPledge_onSuccess_def pledge_of_def env_of_def
        key_defs)

text \<open>
  A pledge for contact 3 in category 5 through \<open>useCreatePledgeMutation\<close>, and one without a
  category through \<open>useCreatePledgeAndPayMutation\<close>.
\<close>

theorem createPledge_invalidation_witness:
  "createPledge (accept ()) (pledge_of (Some 5)) = Inr ()
   \<and> categoryId (pledge_of (Some 5)) \<noteq> Some 0
   \<and> createPledgeAndPay (accept \<lparr>message = ''created'', pledge = ()\<rparr>) (pledge_and_pay_of None)
       = Inr \<lparr>message = ''created'', pledge = (), shouldRedirectToPay = True\<rparr>
   \<and> categoryId (pledge_and_pay_of None) \<noteq> Some 0
   \<and> invalidations (queryClient (snd (mutate (useCreatePledgeMutation 10 (accept ()))
          (pledge_of (Some 5)) (env_of []))))
       = [pledgeKeys_all, pledgeKeys_list [(''contactId'', Num 3)],
          pledgeKeys_list [(''categoryId'', Num 5)]]
   \<and> invalidations (queryClient (snd (mutate
          (useCreatePledgeAndPayMutation 10 (accept \<lparr>message = ''created'', pledge = ()\<rparr>))
          (pledge_and_pay_of None) (env_of []))))
       = [pledgeKeys_all, pledgeKeys_list [(''contactId'', Num 3)]]"
proof -
  have h1: "createPledge (accept ()) (pledge_of (Some 5)) = Inr ()"
    by (rule createPledge_accept)
  have h2: "categoryId (pledge_of (Some 5)) \<noteq> Some 0"
    by (simp add: pledge_of_def)
  have h3: "createPledgeAndPay (accept \<lparr>message = ''created'', pledge = ()\<rparr>) (pledge_and_pay_of None)
       = Inr \<lparr>message = ''created'', pledge = (), shouldRedirectToPay = True\<rparr>"
    by (simp add: createPledgeAndPay_def createPledge_def accept_def pledge_and_pay_of_def
        CreatePledgeResponse.extend_def CreatePledgeAndPayResponse.fields_def)
  have h4: "categoryId (pledge_and_pay_of None) \<noteq> Some 0"
    by (simp add: pledge_and_pay_of_def)
  from createPledge_invalidation [OF h1 h2 h3 h4, of 10 "env_of []" "env_of []"]
  have "invalidations (queryClient (snd (mutate (useCreatePledgeMutation 10 (accept ()))
          (pledge_of (Some 5)) (env_of [])))) =
        invalidations (queryClient (env_of []))
          @ [pledgeKeys_all, pledgeKeys_list [(''contactId'', Num (contactId (pledge_of (Some 5))))]]
          @ (case categoryId (pledge_of (Some 5)) of None \<Rightarrow> []
             | Some g \<Rightarrow> [pledgeKeys_list [(''categoryId'', Num g)]])"
    and "invalidations (queryClient (snd (mutate
          (useCreatePledgeAndPayMutation 10 (accept \<lparr>message = ''created'', pledge = ()\<rparr>))
          (pledge_and_pay_of None) (env_of [])))) =
        invalidations (queryClient (env_of []))
          @ [pledgeKeys_all,
             pledgeKeys_list [(''contactId'', Num (contactId (pledge_and_pay_of None)))]]
          @ (case categoryId (pledge_and_pay_of None) of None \<Rightarrow> []
             | Some g \<Rightarrow> [pledgeKeys_list [(''categoryId'', Num g)]])"
    by blast+
  then have "invalidations (queryClient (snd (mutate (useCreatePledgeMutation 10 (accept ()))
          (pledge_of (Some 5)) (env_of []))))
       = [pledgeKeys_all, pledgeKeys_list [(''contactId'', Num 3)],
          pledgeKeys_list [(''categoryId'', Num 5)]]"
    and "invalidations (queryClient (snd (mutate
          (useCreatePledgeAndPayMutation 10 (accept \<lparr>message = ''created'', pledge = ()\<rparr>))
          (pledge_and_pay_of None) (env_of []))))
       = [pledgeKeys_all, pledgeKeys_list [(''contactId'', Num 3)]]"
    by (simp_all add: pledge_of_def pledge_and_pay_of_def env_of_def)
  with h1 h2 h3 h4 show ?thesis by blast
qed

text \<open>
  Claim C8. When the mutation function of a pledge or payment hook fails, the caller is
  handed the error, the only effect is the line written to the console, and the query
  client is exactly as before: no entry is marked stale, no prefix is invalidated and no
  fetch is started.
\<close>

theorem mutation_failure_no_invalidation:
  assumes "createPledge fetch v = Inl err"
    and "createPayment fetch' v' = Inl err'"
    and "createPledgeAndPay fetch'' v'' = Inl err''"
  shows "mutate (useCreatePledgeMutation now fetch) v w
           = (Inl err, w\<lparr>console := console w @ [(''Error creating pledge:'', err)]\<rparr>)
    \<and> queryClient (snd (mutate (useCreatePledgeMutation now fetch) v w)) = queryClient w
    \<and> mutate (useCreatePaymentMutation now fetch') v' w
           = (Inl err', w\<lparr>console := console w @ [(''Error creating payment:'', err')]\<rparr>)
    \<and> queryClient (snd (mutate (useCreatePaymentMutation now fetch') v' w)) = queryClient w
    \<and> mutate (useCreatePledgeAndPayMutation now fetch'') v'' w
           = (Inl err'', w\<lparr>console := console w @ [(''Error creating pledge:'', err'')]\<rparr>)
    \<and> queryClient (snd (mutate (useCreatePledgeAndPayMutation now fetch'') v'' w)) = queryClient w"
  using assms
  by (simp add: mutate_def useCreatePledgeMutation_def useCreatePaymentMutation_def
        useCreatePledgeAndPayMutation_def console_error_def)

text \<open>
  A server that rejects every request: the three mutation functions fail with the error of
  the response body, and the cache, which holds a subscribed entry, is unchanged.
\<close>

theorem mutation_failure_no_invalidation_witness:
  "createPledge (reject ()) (pledge_of (Some 5)) = Inl (Error ''Pledge not found'')
   \<and> createPayment (reject ()) payment_for_7 = Inl (Error ''Pledge not found'')
   \<and> createPledgeAndPay (reject \<lparr>message = [], pledge = ()\<rparr>) (pledge_and_pay_of None)
       = Inl (Error ''Pledge not found'')
   \<and> mutate (useCreatePaymentMutation 10 (reject ())) payment_for_7
        (env_of [fresh_entry (paymentKeys_byPledge 7) 1])
       = (Inl (Error ''Pledge not found''),
          (env_of [fresh_entry (paymentKeys_byPledge 7) 1])
            \<lparr>console := [(''Error creating payment:'', Error ''Pledge not found'')]\<rparr>)
   \<and> queryClient (snd (mutate (useCreatePledgeMutation 10 (reject ())) (pledge_of (Some 5))
        (env_of [fresh_entry (paymentKeys_byPledge 7) 1])))
       = queryClient (env_of [fresh_entry (paymentKeys_byPledge 7) 1])"
proof -
  have h1: "createPledge (reject ()) (pledge_of (Some 5)) = Inl (Error ''Pledge not found'')"
    by (simp add: createPledge_def reject_def or_else_def)
  have h2: "createPayment (reject ()) payment_for_7 = Inl (Error ''Pledge not found'')"
    by (simp add: createPayment_def reject_def or_else_def)
  have h3: "createPledgeAndPay (reject \<lparr>message = [], pledge = ()\<rparr>) (pledge_and_pay_of None)
       = Inl (Error ''Pledge not found'')"
    by (simp add: createPledgeAndPay_def createPledge_def reject_def or_else_def)
  from mutation_failure_no_invalidation [OF h1 h2 h3, of 10
      "env_of [fresh_entry (paymentKeys_byPledge 7) 1]"]
  have "mutate (useCreatePaymentMutation 10 (reject ())) payment_for_7
        (env_of [fresh_entry (paymentKeys_byPledge 7) 1])
       = (Inl (Error ''Pledge not found''),
          (env_of [fresh_entry (paymentKeys_byPledge 7) 1])
            \<lparr>console := console (env_of [fresh_entry (paymentKeys_byPledge 7) 1])
                @ [(''Error creating payment:'', Error ''Pledge not found'')]\<rparr>)"
    and q: "queryClient (snd (mutate (useCreatePledgeMutation 10 (reject ())) (pledge_of (Some 5))
        (env_of [fresh_entry (paymentKeys_byPledge 7) 1])))
       = queryClient (env_of [fresh_entry (paymentKeys_byPledge 7) 1])"
    by blast+
  then have "mutate (useCreatePaymentMutation 10 (reject ())) payment_for_7
        (env_of [fresh_entry (paymentKeys_byPledge 7) 1])
       = (Inl (Error ''Pledge not found''),
          (env_of [fresh_entry (paymentKeys_byPledge 7) 1])
            \<lparr>console := [(''Error creating payment:'', Error ''Pledge not found'')]\<rparr>)"
    by (simp add: env_of_def)
  with h1 h2 h3 q show ?thesis by blast
qed

subsection \<open>Lookup and the cache invariant\<close>

lemma key_eq_refl [simp]: "key_eq k k"
  by (simp add: key_eq_def)

lemma key_eq_sym: "key_eq a b \<Longrightarrow> key_eq b a"
  by (simp add: key_eq_def)

lemma key_eq_trans: "key_eq a b \<Longrightarrow> key_eq b c \<Longrightarrow> key_eq a c"
  by (simp add: key_eq_def)

lemma lookup_cong: "key_eq j k \<Longrightarrow> lookup j es = lookup k es"
  by (simp add: key_eq_def lookup_def)

lemma lookup_Nil [simp]: "lookup k [] = None"
  by (simp add: lookup_def)

lemma lookup_Cons:
  "lookup k (x # es) = (if key_eq (key x) k then Some x else lookup k es)"
  by (simp add: lookup_def)

lemma lookup_None_iff: "lookup k es = None \<longleftrightarrow> (\<forall>x\<in>set es. \<not> key_eq (key x) k)"
  by (auto simp: lookup_def find_None_iff)

lemma lookup_Some_D: "lookup k es = Some e \<Longrightarrow> e \<in> set es \<and> key_eq (key e) k"
  by (induction es) (auto simp: lookup_Cons split: if_splits)

lemma lookup_modify:
  assumes "\<And>x. key (f x) = key x"
  shows "lookup j (modify k f es) =
          (if key_eq j k then map_option f (lookup j es) else lookup j es)"
  by (induction es) (auto simp: lookup_Cons modify_def assms key_eq_def)

lemma lookup_snoc:
  "lookup j (es @ [n]) =
    (case lookup j es of Some e \<Rightarrow> Some e
     | None \<Rightarrow> if key_eq (key n) j then Some n else None)"
  by (induction es) (auto simp: lookup_Cons)

lemma lookup_map_refresh:
  "lookup j (map (refresh p now) es) = map_option (refresh p now) (lookup j es)"
  by (induction es) (auto simp: lookup_Cons)

lemma idents_modify:
  assumes "\<And>x. key (f x) = key x"
  shows "map (\<lambda>x. hashKey (key x)) (modify k f es) = map (\<lambda>x. hashKey (key x)) es"
  by (simp add: modify_def assms)

lemma occurrences_append [simp]:
  "occurrences j (ks @ ks') = occurrences j ks + occurrences j ks'"
  by (simp add: occurrences_def)

lemma occurrences_single [simp]:
  "occurrences j [k] = (if key_eq k j then 1 else 0)"
  by (simp add: occurrences_def)

lemma occurrences_Nil [simp]: "occurrences j [] = 0"
  by (simp add: occurrences_def)

lemma occurrences_absent:
  "\<forall>x\<in>set es. \<not> key_eq (key x) j \<Longrightarrow> occurrences j (map key (filter R es)) = 0"
  by (induction es) (auto simp: occurrences_def)

lemma occurrences_refetches:
  assumes "distinct (map (\<lambda>x. hashKey (key x)) es)"
  shows "occurrences j (map key (filter R es)) =
           (case lookup j es of None \<Rightarrow> 0 | Some e \<Rightarrow> if R e then 1 else 0)"
  using assms
proof (induction es)
  case Nil
  then show ?case by simp
next
  case (Cons x es)
  show ?case
  proof (cases "key_eq (key x) j")
    case True
    then have "\<forall>y\<in>set es. \<not> key_eq (key y) j"
      using Cons.prems by (force simp: key_eq_def)
    then have "occurrences j (map key (filter R es)) = 0"
      by (rule occurrences_absent)
    then show ?thesis
      using True by (simp add: lookup_Cons occurrences_def)
  next
    case False
    then show ?thesis
      using Cons by (simp add: lookup_Cons occurrences_def)
  qed
qed


lemma cache_inv_empty: "cache_inv empty_cache"
  by (simp add: cache_inv_def empty_cache_def pending_def)

lemma cache_invI:
  assumes "distinct (map (\<lambda>x. hashKey (key x)) (entries c))"
    and "\<And>j. occurrences j (fetchLog c) =
              occurrences j (settleLog c) + (if pending j c then 1 else 0)"
  shows "cache_inv c"
  using assms by (simp add: cache_inv_def)

lemma cache_inv_distinct: "cache_inv c \<Longrightarrow> distinct (map (\<lambda>x. hashKey (key x)) (entries c))"
  by (simp add: cache_inv_def)

lemma cache_inv_count:
  "cache_inv c \<Longrightarrow> occurrences j (fetchLog c) =
              occurrences j (settleLog c) + (if pending j c then 1 else 0)"
  by (simp add: cache_inv_def)

lemma pending_cong: "key_eq j k \<Longrightarrow> pending j c = pending k c"
  by (simp add: pending_def lookup_cong)

lemma key_new_entry [simp]: "key (new_entry k who) = k"
  by (simp add: new_entry_def)

lemma status_new_entry [simp]: "status (new_entry k who) = status_pending"
  by (simp add: new_entry_def)

lemma cache_inv_create:
  assumes "cache_inv c" and "lookup k (entries c) = None"
  shows "cache_inv (c\<lparr>entries := entries c @ [new_entry k who], fetchLog := fetchLog c @ [k]\<rparr>)"
proof (rule cache_invI)
  show "distinct (map (\<lambda>x. hashKey (key x))
          (entries (c\<lparr>entries := entries c @ [new_entry k who], fetchLog := fetchLog c @ [k]\<rparr>)))"
    using assms by (auto simp: cache_inv_def lookup_None_iff key_eq_def)
next
  fix j
  let ?c' = "c\<lparr>entries := entries c @ [new_entry k who], fetchLog := fetchLog c @ [k]\<rparr>"
  show "occurrences j (fetchLog ?c') =
          occurrences j (settleLog ?c') + (if pending j ?c' then 1 else 0)"
  proof (cases "key_eq k j")
    case True
    then have "lookup j (entries c) = None"
      using assms(2) lookup_cong [of j k "entries c"] by (simp add: key_eq_sym)
    then have "\<not> pending j c" and "pending j ?c'"
      using True by (simp_all add: pending_def lookup_snoc)
    then show ?thesis
      using cache_inv_count [OF assms(1), of j] True by simp
  next
    case False
    then have "pending j ?c' = pending j c"
      by (simp add: pending_def lookup_snoc split: option.splits)
    then show ?thesis
      using cache_inv_count [OF assms(1), of j] False by simp
  qed
qed

lemma cache_inv_modify_same:
  assumes "cache_inv c" and "\<And>x. key (f x) = key x"
    and "\<And>x. status (f x) = status x"
  shows "cache_inv (c\<lparr>entries := modify k f (entries c)\<rparr>)"
proof (rule cache_invI)
  show "distinct (map (\<lambda>x. hashKey (key x)) (entries (c\<lparr>entries := modify k f (entries c)\<rparr>)))"
    using assms(1) by (simp add: idents_modify [OF assms(2)] cache_inv_def)
next
  fix j
  have "pending j (c\<lparr>entries := modify k f (entries c)\<rparr>) = pending j c"
    by (simp add: pending_def lookup_modify [OF assms(2)] assms(3) split: option.splits)
  then show "occurrences j (fetchLog (c\<lparr>entries := modify k f (entries c)\<rparr>)) =
          occurrences j (settleLog (c\<lparr>entries := modify k f (entries c)\<rparr>))
          + (if pending j (c\<lparr>entries := modify k f (entries c)\<rparr>) then 1 else 0)"
    using cache_inv_count [OF assms(1), of j] by simp
qed

lemma cache_inv_start:
  assumes "cache_inv c" and "lookup k (entries c) = Some e" and "status e \<noteq> status_pending"
    and "\<And>x. key (f x) = key x" and "\<And>x. status (f x) = status_pending"
  shows "cache_inv (c\<lparr>entries := modify k f (entries c), fetchLog := fetchLog c @ [k]\<rparr>)"
proof (rule cache_invI)
  show "distinct (map (\<lambda>x. hashKey (key x))
          (entries (c\<lparr>entries := modify k f (entries c), fetchLog := fetchLog c @ [k]\<rparr>)))"
    using assms(1) by (simp add: idents_modify [OF assms(4)] cache_inv_def)
next
  fix j
  let ?c' = "c\<lparr>entries := modify k f (entries c), fetchLog := fetchLog c @ [k]\<rparr>"
  show "occurrences j (fetchLog ?c') =
          occurrences j (settleLog ?c') + (if pending j ?c' then 1 else 0)"
  proof (cases "key_eq j k")
    case True
    then have l: "lookup j (entries c) = Some e"
      using assms(2) lookup_cong [of j k "entries c"] by simp
    then have "\<not> pending j c" and "pending j ?c'"
      using True assms(3)
      by (simp_all add: pending_def lookup_modify [OF assms(4)] assms(5))
    then show ?thesis
      using cache_inv_count [OF assms(1), of j] True by (simp add: key_eq_sym)
  next
    case False
    then have "pending j ?c' = pending j c"
      by (simp add: pending_def lookup_modify [OF assms(4)])
    moreover have "\<not> key_eq k j"
      using False key_eq_sym by blast
    ultimately show ?thesis
      using cache_inv_count [OF assms(1), of j] by simp
  qed
qed

lemma cache_inv_request:
  assumes "cache_inv c"
  shows "cache_inv (snd (request k who now c))"
proof (cases "lookup k (entries c)")
  case None
  then show ?thesis
    using cache_inv_create [OF assms None] by (simp add: request_def)
next
  case (Some e)
  show ?thesis
  proof (cases "status e = status_pending")
    case True
    then show ?thesis
      using Some cache_inv_modify_same [OF assms, of "\<lambda>x. x\<lparr>waiters := attach who (waiters x)\<rparr>" k]
      by (simp add: request_def)
  next
    case False
    show ?thesis
    proof (cases "status e = status_success \<and> now < staleAt e")
      case True
      then show ?thesis
        using Some False assms by (simp add: request_def)
    next
      case fresh: False
      then show ?thesis
        using Some False
          cache_inv_start [OF assms Some False,
            of "\<lambda>x. x\<lparr>status := status_pending, waiters := attach who []\<rparr>"]
        by (auto simp: request_def)
    qed
  qed
qed

lemma cache_inv_settle:
  assumes "cache_inv c"
  shows "cache_inv (snd (settle k outcome now T c))"
proof (cases "lookup k (entries c)")
  case None
  then show ?thesis using assms by (simp add: settle_def)
next
  case (Some e)
  show ?thesis
  proof (cases "status e = status_pending")
    case False
    then show ?thesis using Some assms by (simp add: settle_def)
  next
    case True
    let ?f = "complete outcome now T"
    let ?c' = "c\<lparr>entries := modify k ?f (entries c), settleLog := settleLog c @ [k]\<rparr>"
    have kf: "\<And>x. key (?f x) = key x"
      by (simp add: complete_def split: sum.splits)
    have sf: "\<And>x. status (?f x) \<noteq> status_pending"
      by (simp add: complete_def split: sum.splits)
    have "cache_inv ?c'"
    proof (rule cache_invI)
      show "distinct (map (\<lambda>x. hashKey (key x)) (entries ?c'))"
        using assms by (simp add: idents_modify [OF kf] cache_inv_def)
    next
      fix j
      show "occurrences j (fetchLog ?c') =
              occurrences j (settleLog ?c') + (if pending j ?c' then 1 else 0)"
      proof (cases "key_eq j k")
        case eq: True
        then have l: "lookup j (entries c) = Some e"
          using Some lookup_cong [of j k "entries c"] by simp
        then have "pending j c" and "\<not> pending j ?c'"
          using eq True sf by (simp_all add: pending_def lookup_modify [OF kf])
        then show ?thesis
          using cache_inv_count [OF assms, of j] eq by (simp add: key_eq_sym)
      next
        case ne: False
        then have "pending j ?c' = pending j c"
          by (simp add: pending_def lookup_modify [OF kf])
        moreover have "\<not> key_eq k j"
          using ne key_eq_sym by blast
        ultimately show ?thesis
          using cache_inv_count [OF assms, of j] by simp
      qed
    qed
    then show ?thesis
      using Some True by (simp add: settle_def)
  qed
qed

lemma status_refresh:
  "status (refresh p now x) = (if refetches p x then status_pending else status x)"
  by (simp add: refresh_def refetches_def)

lemma cache_inv_invalidate:
  assumes "cache_inv c"
  shows "cache_inv (invalidateQueries p now c)"
proof (rule cache_invI)
  show "distinct (map (\<lambda>x. hashKey (key x)) (entries (invalidateQueries p now c)))"
    using assms by (simp add: invalidateQueries_def cache_inv_def comp_def)
next
  fix j
  have occ: "occurrences j (map key (filter (refetches p) (entries c))) =
           (case lookup j (entries c) of None \<Rightarrow> 0
            | Some e \<Rightarrow> if refetches p e then 1 else 0)"
    by (rule occurrences_refetches) (rule cache_inv_distinct [OF assms])
  have pend: "pending j (invalidateQueries p now c) =
      (case lookup j (entries c) of None \<Rightarrow> False
       | Some e \<Rightarrow> refetches p e \<or> status e = status_pending)"
    by (simp add: pending_def invalidateQueries_def lookup_map_refresh status_refresh
          split: option.splits)
  show "occurrences j (fetchLog (invalidateQueries p now c)) =
          occurrences j (settleLog (invalidateQueries p now c))
          + (if pending j (invalidateQueries p now c) then 1 else 0)"
    using cache_inv_count [OF assms, of j] occ
    unfolding pend
    by (auto simp: invalidateQueries_def pending_def refetches_def split: option.splits)
qed

lemma cache_inv_step: "cache_inv c \<Longrightarrow> cache_inv (step ev c)"
proof (cases ev)
  case (Subscribe k)
  assume "cache_inv c"
  from cache_inv_modify_same [OF this, of "\<lambda>x. x\<lparr>subscriberCount := Suc (subscriberCount x)\<rparr>" k]
  show ?thesis using Subscribe by (simp add: subscribe_def)
next
  case (Unsubscribe k)
  assume "cache_inv c"
  from cache_inv_modify_same [OF this, of "\<lambda>x. x\<lparr>subscriberCount := subscriberCount x - 1\<rparr>" k]
  show ?thesis using Unsubscribe by (simp add: unsubscribe_def)
qed (simp_all add: cache_inv_request cache_inv_settle cache_inv_invalidate)

lemma cache_inv_fold: "cache_inv c \<Longrightarrow> cache_inv (fold step evs c)"
  by (induction evs arbitrary: c) (simp_all add: cache_inv_step)

lemma cache_inv_run: "cache_inv (run evs)"
  by (simp add: run_def cache_inv_fold cache_inv_empty)

lemma inFlight_run:
  "inFlight k (run evs) = (if pending k (run evs) then 1 else 0)"
  using cache_inv_count [OF cache_inv_run, of k evs] by (simp add: inFlight_def)

subsection \<open>Requests, completions and staleness\<close>


lemma settle_pending:
  assumes "lookup k (entries c) = Some e" and "status e = status_pending"
  shows "settle k outcome now T c =
          (map (\<lambda>w. (w, outcome)) (waiters e),
           c\<lparr>entries := modify k (complete outcome now T) (entries c),
             settleLog := settleLog c @ [k]\<rparr>)"
  using assms by (simp add: settle_def)

lemma key_complete [simp]: "key (complete outcome now T x) = key x"
  by (simp add: complete_def split: sum.splits)



text \<open>
  Claim C3. When the fetch in flight for a key fails, the failure is returned as a value to
  every caller attached to that fetch, the key's entry takes the status \<open>error\<close> with the
  error stored and its \<open>data\<close> as before, the entry of every other identity is untouched,
  and no fetch is started.
\<close>

theorem fetch_failure_tagged_error:
  assumes "lookup k (entries c) = Some e" and "status e = status_pending"
  shows "fst (settle k (Inl err) now T c) = map (\<lambda>w. (w, Inl err)) (waiters e)
    \<and> lookup k (entries (snd (settle k (Inl err) now T c)))
        = Some (e\<lparr>status := status_error, error := Some err, waiters := []\<rparr>)
    \<and> data (e\<lparr>status := status_error, error := Some err, waiters := []\<rparr>) = data e
    \<and> (\<not> key_eq j k \<longrightarrow>
          lookup j (entries (snd (settle k (Inl err) now T c))) = lookup j (entries c))
    \<and> fetchLog (snd (settle k (Inl err) now T c)) = fetchLog c"
  using assms
  by (simp add: settle_pending [OF assms] lookup_modify complete_def)




text \<open>
  The server rejects the fetch of \<open>usePledgesQuery\<close> while the entry, which holds data of an
  earlier fetch, is being refetched for two callers: both are handed the error of
  \<open>fetchPledges\<close>, the entry is in the error state with its data kept, and the entry of
  another key is as before.
\<close>

theorem fetch_failure_tagged_error_witness:
  "queryFn (usePledgesQuery id (reject ()) [(''contactId'', Num 3)])
     = Inl (Error ''Failed to fetch pledges: Bad Request'')
   \<and> lookup example_key (entries refetching)
       = Some ((fresh_entry example_key 1)\<lparr>status := status_pending, waiters := [1, 2]\<rparr>)
   \<and> fst (settle example_key (Inl (Error ''Failed to fetch pledges: Bad Request'')) 50 300000
            refetching)
       = [(1, Inl (Error ''Failed to fetch pledges: Bad Request'')),
          (2, Inl (Error ''Failed to fetch pledges: Bad Request''))]
   \<and> map_option (\<lambda>x. (status x, error x, data x))
        (lookup example_key (entries (snd (settle example_key
            (Inl (Error ''Failed to fetch pledges: Bad Request'')) 50 300000 refetching))))
       = Some (status_error, Some (Error ''Failed to fetch pledges: Bad Request''), Some ())
   \<and> lookup pledgeKeys_details (entries (snd (settle example_key
            (Inl (Error ''Failed to fetch pledges: Bad Request'')) 50 300000 refetching)))
       = Some (fresh_entry pledgeKeys_details 1)"
proof -
  have q: "queryFn (usePledgesQuery id (reject ()) [(''contactId'', Num 3)])
     = Inl (Error ''Failed to fetch pledges: Bad Request'')"
    by (simp add: usePledgesQuery_def fetchPledges_def reject_def)
  have h1: "lookup example_key (entries refetching)
       = Some ((fresh_entry example_key 1)\<lparr>status := status_pending, waiters := [1, 2]\<rparr>)"
    by (simp add: refetching_def lookup_Cons fresh_entry_def)
  have h2: "status ((fresh_entry example_key 1)\<lparr>status := status_pending, waiters := [1, 2]\<rparr>)
       = status_pending"
    by simp
  have ne: "\<not> key_eq pledgeKeys_details example_key"
    by (simp add: key_eq_def hashKey_def example_key_def key_defs)
  have other: "lookup pledgeKeys_details (entries refetching)
       = Some (fresh_entry pledgeKeys_details 1)"
    by (simp add: refetching_def lookup_Cons fresh_entry_def key_eq_def hashKey_def
          example_key_def key_defs)
  from fetch_failure_tagged_error [OF h1 h2,
      of "Error ''Failed to fetch pledges: Bad Request''" 50 300000 pledgeKeys_details]
  show ?thesis
    using q h1 ne other by (simp add: fresh_entry_def)
qed




end
